theory Spec2Isabelle
  imports Main "HOL-Library.Log_Nat" "HOL-Library.Multiset" "HOL-Library.Monad_Syntax"
begin

section \<open>The unified orderbook view of the \<^verbatim>\<open>get_orderbook\<close> tool\<close>

text \<open>
  The tool handler \<^verbatim>\<open>get_orderbook\<close> receives the four raw sides of an on-chain
  orderbook (\<^verbatim>\<open>book.yes.bids\<close>, \<^verbatim>\<open>book.yes.asks\<close>, \<^verbatim>\<open>book.no.bids\<close>,
  \<^verbatim>\<open>book.no.asks\<close>) and builds one YES-denominated book out of them. This theory embeds
  the handler from the moment the raw book has been fetched up to the result object that
  is handed to \<^verbatim>\<open>JSON.stringify\<close>.

  Prices, quantities and application ids are JavaScript numbers that hold integers. They
  are modelled as \<^typ>\<open>int\<close>: inside the safe-integer range the additions, subtractions
  and comparisons of the handler are exact. The quotients and products that feed
  \<^verbatim>\<open>toFixed\<close> are not integers; for them the rounding of IEEE-754 doubles is written out.
\<close>

subsection \<open>Doubles: rounding to 53 significant bits\<close>

text \<open>
  \<open>ilog2 x\<close> is the binary exponent of a positive rational: \<open>2 powi (ilog2 x) \<le> x\<close> and
  \<open>x < 2 powi (ilog2 x + 1)\<close>. It is computed from the bit lengths of numerator and
  denominator.
\<close>

definition ilog2 :: "rat \<Rightarrow> int" where
  "ilog2 x = (case quotient_of x of (a, b) \<Rightarrow>
     (let k = bitlen a - bitlen b in if 2 powi k \<le> x then k else k - 1))"

text \<open>Rounding to the nearest integer, a tie going to the even neighbour.\<close>

definition round_even :: "rat \<Rightarrow> int" where
  "round_even y = (let n = \<lfloor>y\<rfloor>; r = y - of_int n in
     if r < 1 / 2 then n else if 1 / 2 < r then n + 1 else if even n then n else n + 1)"

text \<open>
  \<open>fl x\<close> is the double nearest to the exact value \<open>x\<close> (round to nearest, ties to even).
  A double is a sign and a magnitude: the magnitude is scaled so that its integer part has
  53 bits, rounded, and scaled back. The exponent range of doubles is not modelled; the
  quotients and products of micro-unit integers stay far inside it.
\<close>

definition fl :: "rat \<Rightarrow> rat" where
  "fl x = (if x = 0 then 0 else
     (let u = 2 powi (ilog2 \<bar>x\<bar> - 52) in sgn x * (of_int (round_even (\<bar>x\<bar> / u)) * u)))"

text \<open>The operators \<^verbatim>\<open>/\<close> and \<^verbatim>\<open>*\<close> of the source, on doubles: the exact result, rounded.\<close>

definition js_div :: "rat \<Rightarrow> rat \<Rightarrow> rat" where
  "js_div a b = fl (a / b)"

definition js_mul :: "rat \<Rightarrow> rat \<Rightarrow> rat" where
  "js_mul a b = fl (a * b)"

subsection \<open>\<^verbatim>\<open>Number.prototype.toFixed\<close>\<close>

text \<open>The decimal digits of a natural number, most significant first.\<close>

fun digits :: "nat \<Rightarrow> string" where
  "digits n = (if n < 10 then [char_of (48 + n)]
     else digits (n div 10) @ [char_of (48 + n mod 10)])"

declare digits.simps [simp del]

text \<open>
  \<^verbatim>\<open>x.toFixed(f)\<close> for a finite \<open>x\<close> below \<open>10^21\<close> in magnitude: a minus sign when
  \<open>x < 0\<close>; then the integer \<open>n\<close> for which \<open>n / 10^f\<close> is closest to \<open>\<bar>x\<bar>\<close> (the larger
  one of two candidates); its digits, padded with zeros on the left to \<open>f + 1\<close> places, with
  a point before the last \<open>f\<close> of them. (From \<open>10^21\<close> on JavaScript switches to exponent
  notation; such values do not arise from safe-integer micro-units.)
\<close>

definition toFixed :: "nat \<Rightarrow> rat \<Rightarrow> string" where
  "toFixed f x = (let s = (if x < 0 then ''-'' else '''');
       n = nat \<lfloor>\<bar>x\<bar> * 10 ^ f + 1 / 2\<rfloor>;
       m = digits n;
       m = (if length m \<le> f then replicate (f + 1 - length m) (CHR ''0'') @ m else m);
       k = length m
     in s @ take (k - f) m @ ''.'' @ drop (k - f) m)"

text \<open>The cent sign U+00A2, one UTF-16 code unit of the template literals.\<close>

definition cent :: char where
  "cent = CHR 0xA2"

subsection \<open>Data model\<close>

text \<open>\<^verbatim>\<open>type RawEntry = { price; quantity; escrowAppId; owner }\<close>\<close>

record RawEntry =
  price :: int
  quantity :: int
  escrowAppId :: int
  owner :: string

text \<open>\<^verbatim>\<open>type UnifiedEntry = { price; priceRaw; shares; total; escrowAppId; owner; source }\<close>\<close>

record UnifiedEntry =
  price :: string
  priceRaw :: int
  shares :: string
  total :: string
  escrowAppId :: int
  owner :: string
  source :: string

text \<open>The raw book returned by \<^verbatim>\<open>client.getOrderbook\<close>: \<^verbatim>\<open>book.yes\<close> and \<^verbatim>\<open>book.no\<close>,
  each with \<^verbatim>\<open>bids\<close> and \<^verbatim>\<open>asks\<close>.\<close>

record OrderbookSide =
  bids :: "RawEntry list"
  asks :: "RawEntry list"

record Orderbook =
  yes :: OrderbookSide
  no :: OrderbookSide

text \<open>The result object \<^verbatim>\<open>{ unified: { asks, bids, spread }, totalOrders }\<close>.\<close>

record Unified =
  asks :: "UnifiedEntry list"
  bids :: "UnifiedEntry list"
  spread :: string

record Result =
  unified :: Unified
  totalOrders :: nat

subsection \<open>\<^verbatim>\<open>toUnified\<close>\<close>

text \<open>
  The optional parameter \<^verbatim>\<open>priceOverride\<close> is an \<^typ>\<open>int option\<close>;
  \<^verbatim>\<open>priceOverride ?? e.price\<close> falls back to the entry's price only when the override is
  absent, so an override of \<open>0\<close> is kept.
\<close>

definition toUnified :: "RawEntry \<Rightarrow> string \<Rightarrow> int option \<Rightarrow> UnifiedEntry" where
  "toUnified e src priceOverride =
     (let p = (case priceOverride of None \<Rightarrow> RawEntry.price e | Some v \<Rightarrow> v);
          priceCents = js_div (of_int p) 1000000;
          shares = js_div (of_int (quantity e)) 1000000
      in \<lparr> UnifiedEntry.price = toFixed 2 (js_mul priceCents 100) @ [cent],
           priceRaw = p,
           shares = toFixed 2 shares,
           total = ''$'' @ toFixed 2 (js_mul priceCents shares),
           escrowAppId = RawEntry.escrowAppId e,
           owner = RawEntry.owner e,
           source = src \<rparr>)"

subsection \<open>\<^verbatim>\<open>Array.prototype.sort\<close> with a comparator\<close>

text \<open>
  The language standard leaves the algorithm open and fixes the result: sorted with respect
  to the comparator, and stable. Insertion from the right, placing an element in front of
  the first one it does not compare greater than, computes that result.
\<close>

fun insort_cmp :: "('a \<Rightarrow> 'a \<Rightarrow> int) \<Rightarrow> 'a \<Rightarrow> 'a list \<Rightarrow> 'a list" where
  "insort_cmp cmp x [] = [x]"
| "insort_cmp cmp x (y # ys) =
     (if cmp x y \<le> 0 then x # y # ys else y # insort_cmp cmp x ys)"

definition array_sort :: "('a \<Rightarrow> 'a \<Rightarrow> int) \<Rightarrow> 'a list \<Rightarrow> 'a list" where
  "array_sort cmp xs = foldr (insort_cmp cmp) xs []"

subsection \<open>The handler\<close>

text \<open>The two array literals, before \<^verbatim>\<open>.sort\<close> is applied to them.\<close>

definition merged_asks :: "Orderbook \<Rightarrow> UnifiedEntry list" where
  "merged_asks book =
     map (\<lambda>e. toUnified e ''YES ask'' None) (OrderbookSide.asks (yes book)) @
     map (\<lambda>e. toUnified e ''NO bid (= YES ask)'' (Some (1000000 - RawEntry.price e)))
       (OrderbookSide.bids (no book))"

definition merged_bids :: "Orderbook \<Rightarrow> UnifiedEntry list" where
  "merged_bids book =
     map (\<lambda>e. toUnified e ''YES bid'' None) (OrderbookSide.bids (yes book)) @
     map (\<lambda>e. toUnified e ''NO ask (= YES bid)'' (Some (1000000 - RawEntry.price e)))
       (OrderbookSide.asks (no book))"

text \<open>
  \<^verbatim>\<open>bestAsk\<close>, \<^verbatim>\<open>bestBid\<close> and \<^verbatim>\<open>spread\<close>, from the two sorted arrays. The best prices
  are \<^verbatim>\<open>null\<close> for an empty side; the element \<open>0\<close> is read only under the length test. The
  spread is a string in either case.
\<close>

definition spread_of :: "UnifiedEntry list \<Rightarrow> UnifiedEntry list \<Rightarrow> string" where
  "spread_of sorted_asks sorted_bids =
     (let bestAsk = (if length sorted_asks > 0 then Some (priceRaw (sorted_asks ! 0)) else None);
          bestBid = (if length sorted_bids > 0 then Some (priceRaw (sorted_bids ! 0)) else None)
      in case (bestAsk, bestBid) of
           (Some a, Some b) \<Rightarrow> toFixed 2 (js_div (of_int (a - b)) 10000) @ [cent]
         | _ \<Rightarrow> ''N/A'')"

definition get_orderbook :: "Orderbook \<Rightarrow> Result" where
  "get_orderbook book =
     (let asks = array_sort (\<lambda>a b. priceRaw a - priceRaw b) (merged_asks book);
          bids = array_sort (\<lambda>a b. priceRaw b - priceRaw a) (merged_bids book);
          spread = spread_of asks bids;
          totalOrders = length (OrderbookSide.bids (yes book)) + length (OrderbookSide.asks (yes book))
                      + length (OrderbookSide.bids (no book)) + length (OrderbookSide.asks (no book))
      in \<lparr> unified = \<lparr> Unified.asks = asks, bids = bids, spread = spread \<rparr>,
           totalOrders = totalOrders \<rparr>)"

section \<open>The handler on a heap of objects\<close>

text \<open>
  JavaScript arrays and objects are references. To see what the handler writes, the objects
  live in a heap: a list of cells, an address being an index. A cell is a raw entry, a
  unified entry, or an array of addresses. Allocation appends a cell; nothing is freed.
\<close>

type_synonym addr = nat

datatype obj = RawObj RawEntry | UniObj UnifiedEntry | Arr "addr list"

type_synonym heap = "obj list"

definition alloc :: "obj \<Rightarrow> heap \<Rightarrow> addr \<times> heap" where
  "alloc v h = (length h, h @ [v])"

text \<open>Typed reads: \<open>None\<close> for an address outside the heap or a cell of another kind.\<close>

definition read_raw :: "heap \<Rightarrow> addr \<Rightarrow> RawEntry option" where
  "read_raw h a = (if a < length h then (case h ! a of RawObj e \<Rightarrow> Some e | _ \<Rightarrow> None) else None)"

definition read_uni :: "heap \<Rightarrow> addr \<Rightarrow> UnifiedEntry option" where
  "read_uni h a = (if a < length h then (case h ! a of UniObj u \<Rightarrow> Some u | _ \<Rightarrow> None) else None)"

definition read_arr :: "heap \<Rightarrow> addr \<Rightarrow> addr list option" where
  "read_arr h a = (if a < length h then (case h ! a of Arr xs \<Rightarrow> Some xs | _ \<Rightarrow> None) else None)"

text \<open>Reading a list of addresses, and an array with the objects it refers to.\<close>

fun read_all :: "(addr \<Rightarrow> 'a option) \<Rightarrow> addr list \<Rightarrow> 'a list option" where
  "read_all rd [] = Some []"
| "read_all rd (x # xs) =
     (case rd x of None \<Rightarrow> None
      | Some v \<Rightarrow> (case read_all rd xs of None \<Rightarrow> None | Some vs \<Rightarrow> Some (v # vs)))"

definition read_side :: "heap \<Rightarrow> addr \<Rightarrow> RawEntry list option" where
  "read_side h a = (case read_arr h a of None \<Rightarrow> None | Some xs \<Rightarrow> read_all (read_raw h) xs)"

definition read_unified :: "heap \<Rightarrow> addr \<Rightarrow> UnifiedEntry list option" where
  "read_unified h a = (case read_arr h a of None \<Rightarrow> None | Some xs \<Rightarrow> read_all (read_uni h) xs)"

text \<open>
  The callback \<^verbatim>\<open>(e) => toUnified(e, source, priceOverride)\<close>: it reads the fields of the raw
  entry at the given address and allocates the new unified entry. It writes to no raw entry.
\<close>

definition toUnified_at :: "string \<Rightarrow> (RawEntry \<Rightarrow> int option) \<Rightarrow> addr \<Rightarrow> heap \<Rightarrow> (addr \<times> heap) option" where
  "toUnified_at src priceOverride a h =
     (case read_raw h a of None \<Rightarrow> None
      | Some e \<Rightarrow> Some (alloc (UniObj (toUnified e src (priceOverride e))) h))"

text \<open>\<^verbatim>\<open>arr.map(f)\<close>: the callback runs on each element in turn; the results go into a new array.\<close>

fun map_elems :: "(addr \<Rightarrow> heap \<Rightarrow> (addr \<times> heap) option) \<Rightarrow> addr list \<Rightarrow> heap \<Rightarrow> (addr list \<times> heap) option" where
  "map_elems f [] h = Some ([], h)"
| "map_elems f (x # xs) h =
     (case f x h of None \<Rightarrow> None
      | Some (y, h1) \<Rightarrow>
          (case map_elems f xs h1 of None \<Rightarrow> None | Some (ys, h2) \<Rightarrow> Some (y # ys, h2)))"

definition array_map :: "(addr \<Rightarrow> heap \<Rightarrow> (addr \<times> heap) option) \<Rightarrow> addr \<Rightarrow> heap \<Rightarrow> (addr \<times> heap) option" where
  "array_map f a h =
     (case read_arr h a of None \<Rightarrow> None
      | Some xs \<Rightarrow> (case map_elems f xs h of None \<Rightarrow> None | Some (ys, h1) \<Rightarrow> Some (alloc (Arr ys) h1)))"

text \<open>The array literal \<^verbatim>\<open>[...a, ...b]\<close>: a new array with the elements of \<open>a\<close>, then those of \<open>b\<close>.\<close>

definition array_literal :: "addr \<Rightarrow> addr \<Rightarrow> heap \<Rightarrow> (addr \<times> heap) option" where
  "array_literal a b h =
     (case read_arr h a of None \<Rightarrow> None
      | Some xs \<Rightarrow> (case read_arr h b of None \<Rightarrow> None | Some ys \<Rightarrow> Some (alloc (Arr (xs @ ys)) h)))"

text \<open>
  \<^verbatim>\<open>arr.sort(cmp)\<close> sorts the array it is called on and returns that same array: the cell at
  the array's address is overwritten. The comparator reads the unified entries the
  elements refer to.
\<close>

definition sort_in_place :: "(UnifiedEntry \<Rightarrow> UnifiedEntry \<Rightarrow> int) \<Rightarrow> addr \<Rightarrow> heap \<Rightarrow> (addr \<times> heap) option" where
  "sort_in_place cmp a h =
     (case read_arr h a of None \<Rightarrow> None
      | Some xs \<Rightarrow>
          (case read_all (read_uni h) xs of None \<Rightarrow> None
           | Some us \<Rightarrow>
               Some (a, h[a := Arr (map fst (array_sort (\<lambda>p q. cmp (snd p) (snd q)) (zip xs us)))])))"

text \<open>The raw book as the handler receives it: the addresses of the four side arrays.\<close>

record SideRef =
  bids_ref :: addr
  asks_ref :: addr

record BookRef =
  yes_ref :: SideRef
  no_ref :: SideRef

definition read_book :: "heap \<Rightarrow> BookRef \<Rightarrow> Orderbook option" where
  "read_book h book =
     (case (read_side h (bids_ref (yes_ref book)), read_side h (asks_ref (yes_ref book)),
            read_side h (bids_ref (no_ref book)), read_side h (asks_ref (no_ref book))) of
        (Some yb, Some ya, Some nb, Some na) \<Rightarrow>
          Some \<lparr> Orderbook.yes = \<lparr> OrderbookSide.bids = yb, asks = ya \<rparr>,
                 no = \<lparr> OrderbookSide.bids = nb, asks = na \<rparr> \<rparr>
      | _ \<Rightarrow> None)"

text \<open>
  One statement \<^verbatim>\<open>[...x.map(..), ...y.map(..)].sort(cmp)\<close> of the handler, and the handler
  itself: asks, then bids, then the spread from the two sorted arrays and the order count
  from the lengths of the four raw arrays. The result holds the addresses of the two sorted
  arrays.
\<close>

definition unify_side ::
  "(UnifiedEntry \<Rightarrow> UnifiedEntry \<Rightarrow> int) \<Rightarrow> string \<Rightarrow> (RawEntry \<Rightarrow> int option) \<Rightarrow> addr
     \<Rightarrow> string \<Rightarrow> (RawEntry \<Rightarrow> int option) \<Rightarrow> addr \<Rightarrow> heap \<Rightarrow> (addr \<times> heap) option" where
  "unify_side cmp src1 po1 a src2 po2 b h = do {
     (m1, h) \<leftarrow> array_map (toUnified_at src1 po1) a h;
     (m2, h) \<leftarrow> array_map (toUnified_at src2 po2) b h;
     (l, h) \<leftarrow> array_literal m1 m2 h;
     sort_in_place cmp l h
   }"

definition get_orderbook_heap :: "BookRef \<Rightarrow> heap \<Rightarrow> ((addr \<times> addr \<times> string \<times> nat) \<times> heap) option" where
  "get_orderbook_heap book h = do {
     (asks, h) \<leftarrow> unify_side (\<lambda>a b. priceRaw a - priceRaw b)
                    ''YES ask'' (\<lambda>e. None) (asks_ref (yes_ref book))
                    ''NO bid (= YES ask)'' (\<lambda>e. Some (1000000 - RawEntry.price e)) (bids_ref (no_ref book)) h;
     (bids, h) \<leftarrow> unify_side (\<lambda>a b. priceRaw b - priceRaw a)
                    ''YES bid'' (\<lambda>e. None) (bids_ref (yes_ref book))
                    ''NO ask (= YES bid)'' (\<lambda>e. Some (1000000 - RawEntry.price e)) (asks_ref (no_ref book)) h;
     sorted_asks \<leftarrow> read_unified h asks;
     sorted_bids \<leftarrow> read_unified h bids;
     yb \<leftarrow> read_arr h (bids_ref (yes_ref book));
     ya \<leftarrow> read_arr h (asks_ref (yes_ref book));
     nb \<leftarrow> read_arr h (bids_ref (no_ref book));
     na \<leftarrow> read_arr h (asks_ref (no_ref book));
     Some ((asks, bids, spread_of sorted_asks sorted_bids, length yb + length ya + length nb + length na), h)
   }"

text \<open>The result object, with the two arrays read back from the heap.\<close>

definition read_result :: "heap \<Rightarrow> addr \<times> addr \<times> string \<times> nat \<Rightarrow> Result option" where
  "read_result h res =
     (case res of (a, b, s, n) \<Rightarrow>
        (case (read_unified h a, read_unified h b) of
           (Some us, Some vs) \<Rightarrow>
             Some \<lparr> unified = \<lparr> Unified.asks = us, bids = vs, spread = s \<rparr>, totalOrders = n \<rparr>
         | _ \<Rightarrow> None))"

section \<open>Basic facts\<close>

subsection \<open>Rounding to a double keeps the sign\<close>


lemma quotient_of_pos:
  assumes "0 < x" and "quotient_of x = (a, b)"
  shows "0 < a" and "0 < b" and "x = of_int a / of_int b"
proof -
  show b: "0 < b" using assms(2) by (rule quotient_of_denom_pos)
  show x: "x = of_int a / of_int b" using assms(2) by (rule quotient_of_div)
  show "0 < a" using assms(1) b x by (simp add: zero_less_divide_iff)
qed


lemma ilog2_gt:
  assumes "0 < x"
  shows "x < 2 powi (ilog2 x + 1)"
proof -
  obtain a b where q: "quotient_of x = (a, b)" by (cases "quotient_of x")
  note ab = quotient_of_pos [OF assms q]
  define k where "k = bitlen a - bitlen b"
  show ?thesis
  proof (cases "2 powi k \<le> x")
    case False
    then show ?thesis by (simp add: ilog2_def q k_def)
  next
    case True
    have la: "a < (2::int) ^ nat (bitlen a)" using bitlen_bounds [OF ab(1)] by simp
    have lb: "(2::int) ^ nat (bitlen b - 1) \<le> b" using bitlen_bounds [OF ab(2)] by simp
    have pa: "0 \<le> bitlen a" by (rule bitlen_nonneg)
    have pb: "1 \<le> bitlen b" using ab(2) bitlen_eq_zero_iff [of b] bitlen_nonneg [of b] by linarith
    have "x = of_int a / of_int b" by (rule ab(3))
    also have "\<dots> < of_int (2 ^ nat (bitlen a)) / of_int (2 ^ nat (bitlen b - 1))"
    proof (rule frac_less)
      show "(0::rat) \<le> of_int a" using ab(1) by simp
      show "(of_int a :: rat) < of_int (2 ^ nat (bitlen a))" using la by (simp only: of_int_less_iff)
      show "(0::rat) < of_int (2 ^ nat (bitlen b - 1))" by simp
      show "(of_int (2 ^ nat (bitlen b - 1)) :: rat) \<le> of_int b" using lb by (simp only: of_int_le_iff)
    qed
    also have "\<dots> = 2 powi (bitlen a) / 2 powi (bitlen b - 1)"
      using pa pb by (simp add: power_int_def)
    also have "\<dots> = 2 powi (bitlen a - (bitlen b - 1))"
      by (rule power_int_diff [symmetric]) simp
    also have "bitlen a - (bitlen b - 1) = k + 1" by (simp add: k_def)
    finally show ?thesis using True by (simp add: ilog2_def q k_def)
  qed
qed




subsection \<open>Rendering of negative values and of the sentinel\<close>

text \<open>
  The rendering follows the double, not the decimal numeral: \<^verbatim>\<open>(1.005).toFixed(2)\<close> is
  \<^verbatim>\<open>"1.00"\<close>; and a negative value that rounds to zero keeps its sign.
\<close>

lemma toFixed_of_doubles:
  "toFixed 2 (js_div 1005000 1000000) = ''1.00''"
  "toFixed 2 (js_div (- 1) 10000) = ''-0.00''"
  "toFixed 2 (js_div 0 10000) = ''0.00''"
  by code_simp+




subsection \<open>Fields of a unified entry\<close>

lemma priceRaw_toUnified:
  "priceRaw (toUnified e src po) = (case po of None \<Rightarrow> RawEntry.price e | Some v \<Rightarrow> v)"
  by (simp add: toUnified_def Let_def)

lemma source_toUnified: "source (toUnified e src po) = src"
  by (simp add: toUnified_def Let_def)




subsection \<open>The two comparators sort by a key\<close>

lemma insort_cmp_asc:
  "insort_cmp (\<lambda>a b. priceRaw a - priceRaw b) x ys = insort_key priceRaw x ys"
  by (induction ys) simp_all

lemma insort_cmp_desc:
  "insort_cmp (\<lambda>a b. priceRaw b - priceRaw a) x ys = insort_key (\<lambda>u. - priceRaw u) x ys"
  by (induction ys) simp_all

lemma array_sort_asc:
  "array_sort (\<lambda>a b. priceRaw a - priceRaw b) xs = sort_key priceRaw xs"
  by (induction xs) (simp_all add: array_sort_def insort_cmp_asc)

lemma array_sort_desc:
  "array_sort (\<lambda>a b. priceRaw b - priceRaw a) xs = sort_key (\<lambda>u. - priceRaw u) xs"
  by (induction xs) (simp_all add: array_sort_def insort_cmp_desc)

subsection \<open>Sorting by a key: the mapped keys, and uniqueness of the stable result\<close>

lemma map_insort_key: "map f (insort_key f x xs) = insort (f x) (map f xs)"
  by (induction xs) simp_all

lemma map_sort_key: "map f (sort_key f xs) = sort (map f xs)"
  by (induction xs) (simp_all add: map_insort_key)

lemma sort_key_unique:
  assumes "mset zs = mset xs"
    and "sorted (map f zs)"
    and "\<forall>k. filter (\<lambda>u. f u = k) zs = filter (\<lambda>u. f u = k) xs"
  shows "zs = sort_key f xs"
proof -
  have "filter (\<lambda>x. f k = f x) zs = filter (\<lambda>x. f k = f x) xs" for k
  proof -
    have "(\<lambda>x. f k = f x) = (\<lambda>u. f u = f k)" by auto
    then show ?thesis using assms(3) by simp
  qed
  then show ?thesis
    using properties_for_sort_key [of zs xs f] assms(1,2) by simp
qed

subsection \<open>Components of the result\<close>

lemma asks_get_orderbook:
  "Unified.asks (unified (get_orderbook book)) = sort_key priceRaw (merged_asks book)"
  by (simp add: get_orderbook_def Let_def array_sort_asc)

lemma bids_get_orderbook:
  "Unified.bids (unified (get_orderbook book)) = sort_key (\<lambda>u. - priceRaw u) (merged_bids book)"
  by (simp add: get_orderbook_def Let_def array_sort_desc)

lemma totalOrders_get_orderbook:
  "totalOrders (get_orderbook book) =
     length (OrderbookSide.bids (yes book)) + length (OrderbookSide.asks (yes book))
   + length (OrderbookSide.bids (no book)) + length (OrderbookSide.asks (no book))"
  by (simp add: get_orderbook_def Let_def)

lemma spread_get_orderbook:
  "Unified.spread (unified (get_orderbook book)) =
     (case (Unified.asks (unified (get_orderbook book)), Unified.bids (unified (get_orderbook book))) of
        (a # _, b # _) \<Rightarrow> toFixed 2 (js_div (of_int (priceRaw a - priceRaw b)) 10000) @ [cent]
      | _ \<Rightarrow> ''N/A'')"
  by (simp add: get_orderbook_def spread_of_def Let_def split: list.splits)

subsection \<open>The heap: reads survive allocation, and what each step builds\<close>

lemma read_all_Some_iff: "read_all rd xs = Some vs \<longleftrightarrow> map rd xs = map Some vs"
proof (induction xs arbitrary: vs)
  case Nil
  then show ?case by auto
next
  case (Cons x xs)
  show ?case
  proof (cases vs)
    case Nil
    then show ?thesis by (simp split: option.splits)
  next
    case (Cons v vs')
    then show ?thesis using Cons.IH [of vs'] by (auto split: option.splits)
  qed
qed

lemma read_raw_append: "read_raw h a = Some e \<Longrightarrow> read_raw (h @ k) a = Some e"
  by (auto simp: read_raw_def nth_append split: if_splits)

lemma read_uni_append: "read_uni h a = Some u \<Longrightarrow> read_uni (h @ k) a = Some u"
  by (auto simp: read_uni_def nth_append split: if_splits)

lemma read_arr_append: "read_arr h a = Some xs \<Longrightarrow> read_arr (h @ k) a = Some xs"
  by (auto simp: read_arr_def nth_append split: if_splits)

lemma read_all_mono:
  assumes "read_all rd xs = Some vs" and "\<And>x v. rd x = Some v \<Longrightarrow> rd' x = Some v"
  shows "read_all rd' xs = Some vs"
proof -
  have "map rd xs = map Some vs" using assms(1) by (simp add: read_all_Some_iff)
  then have "map rd' xs = map Some vs"
    using assms(2) by (auto simp: list_eq_iff_nth_eq)
  then show ?thesis by (simp add: read_all_Some_iff)
qed

lemma read_side_append: "read_side h a = Some es \<Longrightarrow> read_side (h @ k) a = Some es"
  by (auto simp: read_side_def read_arr_append split: option.splits
      intro: read_all_mono [where rd = "read_raw h"] read_raw_append)

lemma read_unified_append: "read_unified h a = Some us \<Longrightarrow> read_unified (h @ k) a = Some us"
  by (auto simp: read_unified_def read_arr_append split: option.splits
      intro: read_all_mono [where rd = "read_uni h"] read_uni_append)

lemma read_side_arr:
  assumes "read_side h a = Some es"
  shows "\<exists>xs. read_arr h a = Some xs \<and> length xs = length es"
proof -
  obtain xs where xs: "read_arr h a = Some xs" and "read_all (read_raw h) xs = Some es"
    using assms by (auto simp: read_side_def split: option.splits)
  then have "map (read_raw h) xs = map Some es" by (simp add: read_all_Some_iff)
  then have "length xs = length es" by (rule map_eq_imp_length_eq)
  then show ?thesis using xs by simp
qed

lemma map_elems_toUnified:
  "read_all (read_raw h) xs = Some es \<Longrightarrow>
   map_elems (toUnified_at src po) xs h
     = Some ([length h ..< length h + length xs], h @ map (\<lambda>e. UniObj (toUnified e src (po e))) es)"
proof (induction xs arbitrary: h es)
  case Nil
  then show ?case by simp
next
  case (Cons x xs)
  from Cons.prems obtain e es' where e: "read_raw h x = Some e"
    and es': "read_all (read_raw h) xs = Some es'" and es: "es = e # es'"
    by (auto split: option.splits)
  let ?h1 = "h @ [UniObj (toUnified e src (po e))]"
  have "read_all (read_raw ?h1) xs = Some es'"
    using es' by (rule read_all_mono) (rule read_raw_append)
  then have ih: "map_elems (toUnified_at src po) xs ?h1
     = Some ([length ?h1 ..< length ?h1 + length xs], ?h1 @ map (\<lambda>e. UniObj (toUnified e src (po e))) es')"
    by (rule Cons.IH)
  have step: "toUnified_at src po x h = Some (length h, ?h1)"
    by (simp add: toUnified_at_def alloc_def e)
  have upt: "[length h ..< length h + length (x # xs)] = length h # [length ?h1 ..< length ?h1 + length xs]"
    by (simp del: upt_Suc add: upt_conv_Cons)
  show ?case
    unfolding upt by (simp del: upt_Suc add: step ih es)
qed

lemma read_fresh_objects:
  "read_all (read_uni (h @ map UniObj us @ k)) [length h ..< length h + length us] = Some us"
proof (induction us arbitrary: h)
  case Nil
  then show ?case by simp
next
  case (Cons u us)
  have upt: "[length h ..< length h + length (u # us)]
      = length h # [length (h @ [UniObj u]) ..< length (h @ [UniObj u]) + length us]"
    by (simp del: upt_Suc add: upt_conv_Cons)
  have hd: "read_uni (h @ map UniObj (u # us) @ k) (length h) = Some u"
    by (simp add: read_uni_def)
  have "read_all (read_uni ((h @ [UniObj u]) @ map UniObj us @ k))
          [length (h @ [UniObj u]) ..< length (h @ [UniObj u]) + length us] = Some us"
    by (rule Cons.IH)
  then have tl: "read_all (read_uni (h @ map UniObj (u # us) @ k))
          [length (h @ [UniObj u]) ..< length (h @ [UniObj u]) + length us] = Some us"
    by simp
  show ?case
    unfolding upt using hd tl by (simp del: upt_Suc)
qed

lemma array_map_toUnified:
  assumes "read_side h a = Some es"
  shows "\<exists>k. array_map (toUnified_at src po) a h = Some (length h + length es, h @ k)
           \<and> read_unified (h @ k) (length h + length es) = Some (map (\<lambda>e. toUnified e src (po e)) es)"
proof -
  obtain xs where xs: "read_arr h a = Some xs" and rd: "read_all (read_raw h) xs = Some es"
    using assms by (auto simp: read_side_def split: option.splits)
  have len: "length xs = length es"
    using read_side_arr [OF assms] xs by simp
  let ?us = "map (\<lambda>e. toUnified e src (po e)) es"
  let ?k = "map UniObj ?us @ [Arr [length h ..< length h + length es]]"
  have 1: "array_map (toUnified_at src po) a h = Some (length h + length es, h @ ?k)"
    by (simp add: array_map_def xs map_elems_toUnified [OF rd] alloc_def len o_def)
  have 2: "read_arr (h @ ?k) (length h + length es) = Some [length h ..< length h + length es]"
    by (simp add: read_arr_def nth_append)
  have 3: "read_all (read_uni (h @ ?k)) [length h ..< length h + length es] = Some ?us"
    using read_fresh_objects [of h ?us] by simp
  show ?thesis
    using 1 2 3 by (intro exI [of _ ?k]) (simp add: read_unified_def)
qed

lemma array_literal_unified:
  assumes "read_unified h a = Some us" and "read_unified h b = Some vs"
  shows "\<exists>k. array_literal a b h = Some (length h, h @ k)
           \<and> read_unified (h @ k) (length h) = Some (us @ vs)"
proof -
  obtain xs where xs: "read_arr h a = Some xs" and u: "read_all (read_uni h) xs = Some us"
    using assms(1) by (auto simp: read_unified_def split: option.splits)
  obtain ys where ys: "read_arr h b = Some ys" and v: "read_all (read_uni h) ys = Some vs"
    using assms(2) by (auto simp: read_unified_def split: option.splits)
  let ?k = "[Arr (xs @ ys)]"
  have "read_all (read_uni h) (xs @ ys) = Some (us @ vs)"
    using u v by (simp add: read_all_Some_iff)
  then have "read_all (read_uni (h @ ?k)) (xs @ ys) = Some (us @ vs)"
    by (rule read_all_mono) (rule read_uni_append)
  then have "read_unified (h @ ?k) (length h) = Some (us @ vs)"
    by (simp add: read_unified_def read_arr_def)
  moreover have "array_literal a b h = Some (length h, h @ ?k)"
    by (simp add: array_literal_def xs ys alloc_def)
  ultimately show ?thesis by blast
qed

lemma set_insort_cmp: "set (insort_cmp cmp x ys) = insert x (set ys)"
  by (induction ys) auto

lemma set_array_sort: "set (array_sort cmp xs) = set xs"
  by (induction xs) (simp_all add: array_sort_def set_insort_cmp)

lemma map_snd_insort_cmp:
  "map snd (insort_cmp (\<lambda>p q. cmp (snd p) (snd q)) p ps) = insort_cmp cmp (snd p) (map snd ps)"
  by (induction ps) simp_all

lemma map_snd_array_sort:
  "map snd (array_sort (\<lambda>p q. cmp (snd p) (snd q)) ps) = array_sort cmp (map snd ps)"
  by (induction ps) (simp_all add: array_sort_def map_snd_insort_cmp)

lemma sort_in_place_unified:
  assumes "read_unified h a = Some us"
  shows "\<exists>zs. sort_in_place cmp a h = Some (a, h[a := Arr zs])
           \<and> read_unified (h[a := Arr zs]) a = Some (array_sort cmp us)"
proof -
  obtain xs where xs: "read_arr h a = Some xs" and u: "read_all (read_uni h) xs = Some us"
    using assms by (auto simp: read_unified_def split: option.splits)
  have m: "map (read_uni h) xs = map Some us" using u by (simp add: read_all_Some_iff)
  then have len: "length xs = length us" by (rule map_eq_imp_length_eq)
  have a: "a < length h" and arr: "h ! a = Arr xs"
    using xs by (auto simp: read_arr_def split: if_splits obj.splits)
  let ?ps = "array_sort (\<lambda>p q. cmp (snd p) (snd q)) (zip xs us)"
  let ?zs = "map fst ?ps"
  let ?h = "h[a := Arr ?zs]"
  have pair: "read_uni h x = Some u" if "(x, u) \<in> set (zip xs us)" for x u
  proof -
    from that obtain i where i: "i < length xs" "xs ! i = x" "us ! i = u"
      using len by (auto simp: set_zip)
    have "map (read_uni h) xs ! i = map Some us ! i" using m by simp
    then show ?thesis using i len by simp
  qed
  have "read_uni ?h (fst p) = Some (snd p)" if "p \<in> set ?ps" for p
  proof -
    have rd: "read_uni h (fst p) = Some (snd p)"
      using that pair [of "fst p" "snd p"] by (simp add: set_array_sort)
    then have "fst p \<noteq> a"
      using arr by (auto simp: read_uni_def split: if_splits)
    then show ?thesis
      using rd by (auto simp: read_uni_def split: if_splits)
  qed
  then have "map (read_uni ?h) ?zs = map Some (map snd ?ps)" by simp
  also have "map snd ?ps = array_sort cmp us"
    using len by (simp add: map_snd_array_sort)
  finally have "read_all (read_uni ?h) ?zs = Some (array_sort cmp us)"
    by (simp add: read_all_Some_iff)
  then have "read_unified ?h a = Some (array_sort cmp us)"
    using a by (simp add: read_unified_def read_arr_def)
  moreover have "sort_in_place cmp a h = Some (a, ?h)"
    by (simp add: sort_in_place_def xs u)
  ultimately show ?thesis by blast
qed

lemma unify_side_unified:
  assumes "read_side h a = Some es" and "read_side h b = Some fs"
  shows "\<exists>l k. unify_side cmp src1 po1 a src2 po2 b h = Some (l, h @ k)
           \<and> read_unified (h @ k) l
             = Some (array_sort cmp (map (\<lambda>e. toUnified e src1 (po1 e)) es
                                      @ map (\<lambda>e. toUnified e src2 (po2 e)) fs))"
proof -
  from array_map_toUnified [OF assms(1), of src1 po1]
  obtain k1 where m1: "array_map (toUnified_at src1 po1) a h = Some (length h + length es, h @ k1)"
    and r1: "read_unified (h @ k1) (length h + length es) = Some (map (\<lambda>e. toUnified e src1 (po1 e)) es)"
    by blast
  let ?h1 = "h @ k1"
  have "read_side ?h1 b = Some fs" using assms(2) by (rule read_side_append)
  from array_map_toUnified [OF this, of src2 po2]
  obtain k2 where m2: "array_map (toUnified_at src2 po2) b ?h1 = Some (length ?h1 + length fs, ?h1 @ k2)"
    and r2: "read_unified (?h1 @ k2) (length ?h1 + length fs) = Some (map (\<lambda>e. toUnified e src2 (po2 e)) fs)"
    by blast
  let ?h2 = "?h1 @ k2"
  have r1': "read_unified ?h2 (length h + length es) = Some (map (\<lambda>e. toUnified e src1 (po1 e)) es)"
    using r1 by (rule read_unified_append)
  from array_literal_unified [OF r1' r2]
  obtain k3 where l: "array_literal (length h + length es) (length ?h1 + length fs) ?h2 = Some (length ?h2, ?h2 @ k3)"
    and r3: "read_unified (?h2 @ k3) (length ?h2)
             = Some (map (\<lambda>e. toUnified e src1 (po1 e)) es @ map (\<lambda>e. toUnified e src2 (po2 e)) fs)"
    by blast
  let ?h3 = "?h2 @ k3"
  from sort_in_place_unified [OF r3, of cmp]
  obtain zs where s: "sort_in_place cmp (length ?h2) ?h3 = Some (length ?h2, ?h3[length ?h2 := Arr zs])"
    and r4: "read_unified (?h3[length ?h2 := Arr zs]) (length ?h2)
             = Some (array_sort cmp (map (\<lambda>e. toUnified e src1 (po1 e)) es
                                      @ map (\<lambda>e. toUnified e src2 (po2 e)) fs))"
    by blast
  have form: "?h3[length ?h2 := Arr zs] = h @ (k1 @ k2 @ k3)[length k1 + length k2 := Arr zs]"
    by (simp add: list_update_append)
  have "unify_side cmp src1 po1 a src2 po2 b h = Some (length ?h2, ?h3[length ?h2 := Arr zs])"
    using m1 m2 l s by (simp add: unify_side_def)
  then show ?thesis
    using r4 unfolding form by blast
qed

section \<open>Properties of the unified book\<close>



text \<open>
  C2 (conservation). The unified asks and bids together have as many entries as the four
  raw sides, \<open>totalOrders\<close> is that number, and the unified asks (bids) are, as a multiset,
  exactly the images of the YES asks and NO bids (YES bids and NO asks): every raw entry
  gives one unified entry, none is dropped and none is duplicated.
\<close>

theorem conservation:
  "length (Unified.asks (unified (get_orderbook book)))
     + length (Unified.bids (unified (get_orderbook book)))
   = length (OrderbookSide.bids (yes book)) + length (OrderbookSide.asks (yes book))
     + length (OrderbookSide.bids (no book)) + length (OrderbookSide.asks (no book))
   \<and> totalOrders (get_orderbook book)
   = length (OrderbookSide.bids (yes book)) + length (OrderbookSide.asks (yes book))
     + length (OrderbookSide.bids (no book)) + length (OrderbookSide.asks (no book))
   \<and> mset (Unified.asks (unified (get_orderbook book)))
   = image_mset (\<lambda>e. toUnified e ''YES ask'' None) (mset (OrderbookSide.asks (yes book)))
     + image_mset (\<lambda>e. toUnified e ''NO bid (= YES ask)'' (Some (1000000 - RawEntry.price e)))
         (mset (OrderbookSide.bids (no book)))
   \<and> mset (Unified.bids (unified (get_orderbook book)))
   = image_mset (\<lambda>e. toUnified e ''YES bid'' None) (mset (OrderbookSide.bids (yes book)))
     + image_mset (\<lambda>e. toUnified e ''NO ask (= YES bid)'' (Some (1000000 - RawEntry.price e)))
         (mset (OrderbookSide.asks (no book)))"
  by (simp add: asks_get_orderbook bids_get_orderbook totalOrders_get_orderbook
      merged_asks_def merged_bids_def)

text \<open>
  C3 (pass-through correctness). Every YES ask appears among the unified asks, and every
  YES bid among the unified bids, with \<open>priceRaw\<close> equal to the entry's own price; and a
  unified entry whose source tag is \<open>''YES ask''\<close> or \<open>''YES bid''\<close> is the image of such an
  entry with the price unchanged.
\<close>

theorem pass_through:
  "(\<forall>e \<in> set (OrderbookSide.asks (yes book)).
      toUnified e ''YES ask'' None \<in> set (Unified.asks (unified (get_orderbook book)))
      \<and> priceRaw (toUnified e ''YES ask'' None) = RawEntry.price e)
   \<and> (\<forall>e \<in> set (OrderbookSide.bids (yes book)).
      toUnified e ''YES bid'' None \<in> set (Unified.bids (unified (get_orderbook book)))
      \<and> priceRaw (toUnified e ''YES bid'' None) = RawEntry.price e)
   \<and> (\<forall>u \<in> set (Unified.asks (unified (get_orderbook book))).
        source u = ''YES ask'' \<longrightarrow>
        (\<exists>e \<in> set (OrderbookSide.asks (yes book)).
           u = toUnified e ''YES ask'' None \<and> priceRaw u = RawEntry.price e))
   \<and> (\<forall>u \<in> set (Unified.bids (unified (get_orderbook book))).
        source u = ''YES bid'' \<longrightarrow>
        (\<exists>e \<in> set (OrderbookSide.bids (yes book)).
           u = toUnified e ''YES bid'' None \<and> priceRaw u = RawEntry.price e))"
  by (auto simp: asks_get_orderbook bids_get_orderbook merged_asks_def merged_bids_def
      priceRaw_toUnified source_toUnified)

text \<open>At a book with one YES bid and one YES ask.\<close>

theorem pass_through_witness:
  "toUnified \<lparr> RawEntry.price = 600000, quantity = 1000000, escrowAppId = 1, owner = ''A'' \<rparr> ''YES ask'' None
     \<in> set (Unified.asks (unified (get_orderbook
         \<lparr> yes = \<lparr> OrderbookSide.bids = [\<lparr> RawEntry.price = 480000, quantity = 5000000, escrowAppId = 2, owner = ''B'' \<rparr>],
                  asks = [\<lparr> RawEntry.price = 600000, quantity = 1000000, escrowAppId = 1, owner = ''A'' \<rparr>] \<rparr>,
           no = \<lparr> OrderbookSide.bids = [], asks = [] \<rparr> \<rparr>)))
   \<and> priceRaw (toUnified \<lparr> RawEntry.price = 600000, quantity = 1000000, escrowAppId = 1, owner = ''A'' \<rparr> ''YES ask'' None)
       = 600000
   \<and> toUnified \<lparr> RawEntry.price = 480000, quantity = 5000000, escrowAppId = 2, owner = ''B'' \<rparr> ''YES bid'' None
     \<in> set (Unified.bids (unified (get_orderbook
         \<lparr> yes = \<lparr> OrderbookSide.bids = [\<lparr> RawEntry.price = 480000, quantity = 5000000, escrowAppId = 2, owner = ''B'' \<rparr>],
                  asks = [\<lparr> RawEntry.price = 600000, quantity = 1000000, escrowAppId = 1, owner = ''A'' \<rparr>] \<rparr>,
           no = \<lparr> OrderbookSide.bids = [], asks = [] \<rparr> \<rparr>)))
   \<and> priceRaw (toUnified \<lparr> RawEntry.price = 480000, quantity = 5000000, escrowAppId = 2, owner = ''B'' \<rparr> ''YES bid'' None)
       = 480000"
  using pass_through [of
         "\<lparr> yes = \<lparr> OrderbookSide.bids = [\<lparr> RawEntry.price = 480000, quantity = 5000000, escrowAppId = 2, owner = ''B'' \<rparr>],
                  asks = [\<lparr> RawEntry.price = 600000, quantity = 1000000, escrowAppId = 1, owner = ''A'' \<rparr>] \<rparr>,
           no = \<lparr> OrderbookSide.bids = [], asks = [] \<rparr> \<rparr>"]
  by simp




text \<open>
  C5 (sort order). Whatever the order of the raw sides, the unified asks are non-decreasing
  in \<open>priceRaw\<close> and the unified bids are non-increasing in \<open>priceRaw\<close>.
\<close>

theorem sort_order:
  "sorted_wrt (\<lambda>a b. priceRaw a \<le> priceRaw b) (Unified.asks (unified (get_orderbook book)))
   \<and> sorted_wrt (\<lambda>a b. priceRaw a \<ge> priceRaw b) (Unified.bids (unified (get_orderbook book)))"
proof -
  have "sorted (map priceRaw (sort_key priceRaw (merged_asks book)))"
    by (rule sorted_sort_key)
  moreover have "sorted (map (\<lambda>u. - priceRaw u) (sort_key (\<lambda>u. - priceRaw u) (merged_bids book)))"
    by (rule sorted_sort_key)
  ultimately show ?thesis
    by (simp add: asks_get_orderbook bids_get_orderbook sorted_map)
qed

text \<open>
  C6 (determinism, stable tie-break). Among the entries of one \<open>priceRaw\<close> the unified asks
  (bids) keep the order of the array literal they were built from: YES entries before
  NO entries, each side in its input order. The result is moreover the only arrangement
  of the merged entries that is sorted and keeps that order among equal prices, so it does
  not depend on how the engine sorts; and equal raw books give equal results.
\<close>

theorem stable_deterministic:
  "(\<forall>k. filter (\<lambda>u. priceRaw u = k) (Unified.asks (unified (get_orderbook book)))
        = filter (\<lambda>u. priceRaw u = k) (merged_asks book))
   \<and> (\<forall>k. filter (\<lambda>u. priceRaw u = k) (Unified.bids (unified (get_orderbook book)))
        = filter (\<lambda>u. priceRaw u = k) (merged_bids book))
   \<and> (\<forall>zs. mset zs = mset (merged_asks book)
          \<and> sorted_wrt (\<lambda>a b. priceRaw a \<le> priceRaw b) zs
          \<and> (\<forall>k. filter (\<lambda>u. priceRaw u = k) zs = filter (\<lambda>u. priceRaw u = k) (merged_asks book))
        \<longrightarrow> zs = Unified.asks (unified (get_orderbook book)))
   \<and> (\<forall>zs. mset zs = mset (merged_bids book)
          \<and> sorted_wrt (\<lambda>a b. priceRaw a \<ge> priceRaw b) zs
          \<and> (\<forall>k. filter (\<lambda>u. priceRaw u = k) zs = filter (\<lambda>u. priceRaw u = k) (merged_bids book))
        \<longrightarrow> zs = Unified.bids (unified (get_orderbook book)))
   \<and> (\<forall>book'. book' = book \<longrightarrow> get_orderbook book' = get_orderbook book)"
proof -
  have a: "filter (\<lambda>u. priceRaw u = k) (sort_key priceRaw (merged_asks book))
        = filter (\<lambda>u. priceRaw u = k) (merged_asks book)" for k
    by (rule sort_key_stable)
  have b: "filter (\<lambda>u. priceRaw u = k) (sort_key (\<lambda>u. - priceRaw u) (merged_bids book))
        = filter (\<lambda>u. priceRaw u = k) (merged_bids book)" for k
    using sort_key_stable [of "\<lambda>u. - priceRaw u" "- k" "merged_bids book"] by simp
  have c: "zs = sort_key priceRaw (merged_asks book)"
    if "mset zs = mset (merged_asks book)"
      and "sorted_wrt (\<lambda>a b. priceRaw a \<le> priceRaw b) zs"
      and "\<forall>k. filter (\<lambda>u. priceRaw u = k) zs = filter (\<lambda>u. priceRaw u = k) (merged_asks book)"
    for zs
    using that by (intro sort_key_unique) (simp_all add: sorted_map)
  have d: "zs = sort_key (\<lambda>u. - priceRaw u) (merged_bids book)"
    if "mset zs = mset (merged_bids book)"
      and "sorted_wrt (\<lambda>a b. priceRaw a \<ge> priceRaw b) zs"
      and s: "\<forall>k. filter (\<lambda>u. priceRaw u = k) zs = filter (\<lambda>u. priceRaw u = k) (merged_bids book)"
    for zs
  proof (rule sort_key_unique)
    show "mset zs = mset (merged_bids book)" by (rule that(1))
    show "sorted (map (\<lambda>u. - priceRaw u) zs)" using that(2) by (simp add: sorted_map)
    show "\<forall>k. filter (\<lambda>u. - priceRaw u = k) zs = filter (\<lambda>u. - priceRaw u = k) (merged_bids book)"
    proof
      fix k
      have eq: "(\<lambda>u. - priceRaw u = k) = (\<lambda>u. priceRaw u = - k)" by auto
      show "filter (\<lambda>u. - priceRaw u = k) zs = filter (\<lambda>u. - priceRaw u = k) (merged_bids book)"
        unfolding eq using s by blast
    qed
  qed
  show ?thesis
    using a b c d by (simp add: asks_get_orderbook bids_get_orderbook)
qed

text \<open>
  At a book whose second YES ask is cheaper than the first and whose NO bid ties with the
  first YES ask: the cheaper ask comes first and the tie keeps the YES ask before the NO
  bid.
\<close>

theorem stable_deterministic_witness:
  "Unified.asks (unified (get_orderbook
      \<lparr> yes = \<lparr> OrderbookSide.bids = [],
               asks = [\<lparr> RawEntry.price = 600000, quantity = 1000000, escrowAppId = 1, owner = ''A'' \<rparr>,
                       \<lparr> RawEntry.price = 500000, quantity = 1000000, escrowAppId = 3, owner = ''C'' \<rparr>] \<rparr>,
        no = \<lparr> OrderbookSide.bids = [\<lparr> RawEntry.price = 400000, quantity = 1000000, escrowAppId = 2, owner = ''B'' \<rparr>],
               asks = [] \<rparr> \<rparr>))
   = [toUnified \<lparr> RawEntry.price = 500000, quantity = 1000000, escrowAppId = 3, owner = ''C'' \<rparr> ''YES ask'' None,
      toUnified \<lparr> RawEntry.price = 600000, quantity = 1000000, escrowAppId = 1, owner = ''A'' \<rparr> ''YES ask'' None,
      toUnified \<lparr> RawEntry.price = 400000, quantity = 1000000, escrowAppId = 2, owner = ''B'' \<rparr>
        ''NO bid (= YES ask)'' (Some 600000)]"
proof -
  let ?book = "\<lparr> yes = \<lparr> OrderbookSide.bids = [],
               asks = [\<lparr> RawEntry.price = 600000, quantity = 1000000, escrowAppId = 1, owner = ''A'' \<rparr>,
                       \<lparr> RawEntry.price = 500000, quantity = 1000000, escrowAppId = 3, owner = ''C'' \<rparr>] \<rparr>,
        no = \<lparr> OrderbookSide.bids = [\<lparr> RawEntry.price = 400000, quantity = 1000000, escrowAppId = 2, owner = ''B'' \<rparr>],
               asks = [] \<rparr> \<rparr>"
  let ?zs = "[toUnified \<lparr> RawEntry.price = 500000, quantity = 1000000, escrowAppId = 3, owner = ''C'' \<rparr> ''YES ask'' None,
      toUnified \<lparr> RawEntry.price = 600000, quantity = 1000000, escrowAppId = 1, owner = ''A'' \<rparr> ''YES ask'' None,
      toUnified \<lparr> RawEntry.price = 400000, quantity = 1000000, escrowAppId = 2, owner = ''B'' \<rparr>
        ''NO bid (= YES ask)'' (Some 600000)]"
  have 1: "mset ?zs = mset (merged_asks ?book)"
    by (simp add: merged_asks_def)
  have 2: "sorted_wrt (\<lambda>a b. priceRaw a \<le> priceRaw b) ?zs"
    by (simp add: priceRaw_toUnified)
  have 3: "\<forall>k. filter (\<lambda>u. priceRaw u = k) ?zs = filter (\<lambda>u. priceRaw u = k) (merged_asks ?book)"
    by (simp add: merged_asks_def priceRaw_toUnified)
  have "?book = ?book \<longrightarrow> get_orderbook ?book = get_orderbook ?book"
    using stable_deterministic [of ?book] by blast
  moreover have "?zs = Unified.asks (unified (get_orderbook ?book))"
    using stable_deterministic [of ?book] 1 2 3 by blast
  ultimately show ?thesis by simp
qed




text \<open>
  C8 (empty and one-sided books). For the book with four empty sides the handler returns
  empty asks, empty bids, the spread \<open>''N/A''\<close> and \<open>totalOrders = 0\<close>. With only the YES asks
  populated (by any list \<open>ys\<close>) the bids are empty and the spread is \<open>''N/A''\<close>, while the
  asks are the stably sorted images of \<open>ys\<close>: their prices are the sorted prices of \<open>ys\<close>
  and \<open>totalOrders\<close> is the length of \<open>ys\<close>.
\<close>

theorem empty_and_one_sided:
  "get_orderbook \<lparr> yes = \<lparr> OrderbookSide.bids = [], asks = [] \<rparr>,
                   no = \<lparr> OrderbookSide.bids = [], asks = [] \<rparr> \<rparr>
     = \<lparr> unified = \<lparr> Unified.asks = [], bids = [], spread = ''N/A'' \<rparr>, totalOrders = 0 \<rparr>
   \<and> Unified.bids (unified (get_orderbook
        \<lparr> yes = \<lparr> OrderbookSide.bids = [], asks = ys \<rparr>,
          no = \<lparr> OrderbookSide.bids = [], asks = [] \<rparr> \<rparr>)) = []
   \<and> Unified.spread (unified (get_orderbook
        \<lparr> yes = \<lparr> OrderbookSide.bids = [], asks = ys \<rparr>,
          no = \<lparr> OrderbookSide.bids = [], asks = [] \<rparr> \<rparr>)) = ''N/A''
   \<and> Unified.asks (unified (get_orderbook
        \<lparr> yes = \<lparr> OrderbookSide.bids = [], asks = ys \<rparr>,
          no = \<lparr> OrderbookSide.bids = [], asks = [] \<rparr> \<rparr>))
       = sort_key priceRaw (map (\<lambda>e. toUnified e ''YES ask'' None) ys)
   \<and> map priceRaw (Unified.asks (unified (get_orderbook
        \<lparr> yes = \<lparr> OrderbookSide.bids = [], asks = ys \<rparr>,
          no = \<lparr> OrderbookSide.bids = [], asks = [] \<rparr> \<rparr>)))
       = sort (map RawEntry.price ys)
   \<and> totalOrders (get_orderbook
        \<lparr> yes = \<lparr> OrderbookSide.bids = [], asks = ys \<rparr>,
          no = \<lparr> OrderbookSide.bids = [], asks = [] \<rparr> \<rparr>) = length ys"
proof -
  let ?e = "\<lparr> yes = \<lparr> OrderbookSide.bids = [], asks = [] \<rparr>,
              no = \<lparr> OrderbookSide.bids = [], asks = [] \<rparr> \<rparr>"
  let ?b = "\<lparr> yes = \<lparr> OrderbookSide.bids = [], asks = ys \<rparr>,
              no = \<lparr> OrderbookSide.bids = [], asks = [] \<rparr> \<rparr>"
  have e: "get_orderbook ?e
     = \<lparr> unified = \<lparr> Unified.asks = [], bids = [], spread = ''N/A'' \<rparr>, totalOrders = 0 \<rparr>"
    by (simp add: get_orderbook_def spread_of_def merged_asks_def merged_bids_def array_sort_def)
  have b: "Unified.bids (unified (get_orderbook ?b)) = []"
    by (simp add: bids_get_orderbook merged_bids_def)
  have s: "Unified.spread (unified (get_orderbook ?b)) = ''N/A''"
    by (simp add: spread_get_orderbook b split: list.splits)
  have a: "Unified.asks (unified (get_orderbook ?b))
       = sort_key priceRaw (map (\<lambda>e. toUnified e ''YES ask'' None) ys)"
    by (simp add: asks_get_orderbook merged_asks_def)
  have p: "map priceRaw (Unified.asks (unified (get_orderbook ?b))) = sort (map RawEntry.price ys)"
    by (simp add: a map_sort_key priceRaw_toUnified o_def)
  have t: "totalOrders (get_orderbook ?b) = length ys"
    by (simp add: totalOrders_get_orderbook)
  show ?thesis
    using e b s a p t by blast
qed

text \<open>
  C9 (the input is not mutated). Run on a heap in which the four side arrays and their raw
  entries can be read as the raw book \<open>book\<close>, the handler returns a result, and the heap
  after the call begins with the heap before it: every cell that existed before, so each of
  the four side arrays and every raw entry, is unchanged, and the raw book reads back the
  same. The in-place sort only overwrites the array that the array literal has just
  allocated. The result read back from the new heap is \<open>get_orderbook book\<close>.
\<close>

theorem input_not_mutated:
  assumes "read_book h ref = Some book"
  shows "\<exists>res h'. get_orderbook_heap ref h = Some (res, h')
           \<and> take (length h) h' = h
           \<and> read_book h' ref = Some book
           \<and> read_result h' res = Some (get_orderbook book)"
proof -
  from assms have yb: "read_side h (bids_ref (yes_ref ref)) = Some (OrderbookSide.bids (Orderbook.yes book))"
    and ya: "read_side h (asks_ref (yes_ref ref)) = Some (OrderbookSide.asks (Orderbook.yes book))"
    and nb: "read_side h (bids_ref (no_ref ref)) = Some (OrderbookSide.bids (Orderbook.no book))"
    and na: "read_side h (asks_ref (no_ref ref)) = Some (OrderbookSide.asks (Orderbook.no book))"
    by (auto simp: read_book_def split: option.splits)
  from unify_side_unified [OF ya nb]
  obtain A k1 where u1: "unify_side (\<lambda>a b. priceRaw a - priceRaw b)
        ''YES ask'' (\<lambda>e. None) (asks_ref (yes_ref ref))
        ''NO bid (= YES ask)'' (\<lambda>e. Some (1000000 - RawEntry.price e)) (bids_ref (no_ref ref)) h
      = Some (A, h @ k1)"
    and rA: "read_unified (h @ k1) A
      = Some (array_sort (\<lambda>a b. priceRaw a - priceRaw b) (merged_asks book))"
    unfolding merged_asks_def by blast
  have yb1: "read_side (h @ k1) (bids_ref (yes_ref ref)) = Some (OrderbookSide.bids (Orderbook.yes book))"
    using yb by (rule read_side_append)
  have na1: "read_side (h @ k1) (asks_ref (no_ref ref)) = Some (OrderbookSide.asks (Orderbook.no book))"
    using na by (rule read_side_append)
  from unify_side_unified [OF yb1 na1]
  obtain B k2 where u2: "unify_side (\<lambda>a b. priceRaw b - priceRaw a)
        ''YES bid'' (\<lambda>e. None) (bids_ref (yes_ref ref))
        ''NO ask (= YES bid)'' (\<lambda>e. Some (1000000 - RawEntry.price e)) (asks_ref (no_ref ref)) (h @ k1)
      = Some (B, (h @ k1) @ k2)"
    and rB: "read_unified ((h @ k1) @ k2) B
      = Some (array_sort (\<lambda>a b. priceRaw b - priceRaw a) (merged_bids book))"
    unfolding merged_bids_def by blast
  let ?h' = "h @ k1 @ k2"
  have rA': "read_unified ?h' A = Some (array_sort (\<lambda>a b. priceRaw a - priceRaw b) (merged_asks book))"
    using read_unified_append [OF rA, of k2] by simp
  have rB': "read_unified ?h' B = Some (array_sort (\<lambda>a b. priceRaw b - priceRaw a) (merged_bids book))"
    using rB by simp
  have yb': "read_side ?h' (bids_ref (yes_ref ref)) = Some (OrderbookSide.bids (Orderbook.yes book))"
    using yb by (rule read_side_append)
  have ya': "read_side ?h' (asks_ref (yes_ref ref)) = Some (OrderbookSide.asks (Orderbook.yes book))"
    using ya by (rule read_side_append)
  have nb': "read_side ?h' (bids_ref (no_ref ref)) = Some (OrderbookSide.bids (Orderbook.no book))"
    using nb by (rule read_side_append)
  have na': "read_side ?h' (asks_ref (no_ref ref)) = Some (OrderbookSide.asks (Orderbook.no book))"
    using na by (rule read_side_append)
  from read_side_arr [OF yb'] obtain xyb where xyb: "read_arr ?h' (bids_ref (yes_ref ref)) = Some xyb"
    "length xyb = length (OrderbookSide.bids (Orderbook.yes book))" by blast
  from read_side_arr [OF ya'] obtain xya where xya: "read_arr ?h' (asks_ref (yes_ref ref)) = Some xya"
    "length xya = length (OrderbookSide.asks (Orderbook.yes book))" by blast
  from read_side_arr [OF nb'] obtain xnb where xnb: "read_arr ?h' (bids_ref (no_ref ref)) = Some xnb"
    "length xnb = length (OrderbookSide.bids (Orderbook.no book))" by blast
  from read_side_arr [OF na'] obtain xna where xna: "read_arr ?h' (asks_ref (no_ref ref)) = Some xna"
    "length xna = length (OrderbookSide.asks (Orderbook.no book))" by blast
  let ?res = "(A, B,
      spread_of (array_sort (\<lambda>a b. priceRaw a - priceRaw b) (merged_asks book))
                (array_sort (\<lambda>a b. priceRaw b - priceRaw a) (merged_bids book)),
      length (OrderbookSide.bids (Orderbook.yes book)) + length (OrderbookSide.asks (Orderbook.yes book))
        + length (OrderbookSide.bids (Orderbook.no book)) + length (OrderbookSide.asks (Orderbook.no book)))"
  have run: "get_orderbook_heap ref h = Some (?res, ?h')"
    using u1 u2 by (simp add: get_orderbook_heap_def rA' rB' xyb xya xnb xna)
  have frame: "take (length h) ?h' = h"
    by simp
  have book: "read_book ?h' ref = Some book"
    by (simp add: read_book_def yb' ya' nb' na')
  have result: "read_result ?h' ?res = Some (get_orderbook book)"
    by (simp add: read_result_def rA' rB' get_orderbook_def Let_def)
  show ?thesis
    using run frame book result by blast
qed

text \<open>At a heap with one YES ask and one NO bid; the side arrays are at addresses 2 to 5.\<close>

theorem input_not_mutated_witness:
  "read_book
     [RawObj \<lparr> RawEntry.price = 600000, quantity = 1000000, escrowAppId = 1, owner = ''A'' \<rparr>,
      RawObj \<lparr> RawEntry.price = 700000, quantity = 2000000, escrowAppId = 2, owner = ''B'' \<rparr>,
      Arr [], Arr [0], Arr [1], Arr []]
     \<lparr> yes_ref = \<lparr> bids_ref = 2, asks_ref = 3 \<rparr>, no_ref = \<lparr> bids_ref = 4, asks_ref = 5 \<rparr> \<rparr>
   = Some \<lparr> Orderbook.yes = \<lparr> OrderbookSide.bids = [],
              asks = [\<lparr> RawEntry.price = 600000, quantity = 1000000, escrowAppId = 1, owner = ''A'' \<rparr>] \<rparr>,
            no = \<lparr> OrderbookSide.bids = [\<lparr> RawEntry.price = 700000, quantity = 2000000, escrowAppId = 2, owner = ''B'' \<rparr>],
              asks = [] \<rparr> \<rparr>
   \<and> (\<exists>res h'. get_orderbook_heap
         \<lparr> yes_ref = \<lparr> bids_ref = 2, asks_ref = 3 \<rparr>, no_ref = \<lparr> bids_ref = 4, asks_ref = 5 \<rparr> \<rparr>
         [RawObj \<lparr> RawEntry.price = 600000, quantity = 1000000, escrowAppId = 1, owner = ''A'' \<rparr>,
          RawObj \<lparr> RawEntry.price = 700000, quantity = 2000000, escrowAppId = 2, owner = ''B'' \<rparr>,
          Arr [], Arr [0], Arr [1], Arr []] = Some (res, h')
       \<and> take 6 h'
         = [RawObj \<lparr> RawEntry.price = 600000, quantity = 1000000, escrowAppId = 1, owner = ''A'' \<rparr>,
            RawObj \<lparr> RawEntry.price = 700000, quantity = 2000000, escrowAppId = 2, owner = ''B'' \<rparr>,
            Arr [], Arr [0], Arr [1], Arr []])"
proof -
  let ?h = "[RawObj \<lparr> RawEntry.price = 600000, quantity = 1000000, escrowAppId = 1, owner = ''A'' \<rparr>,
      RawObj \<lparr> RawEntry.price = 700000, quantity = 2000000, escrowAppId = 2, owner = ''B'' \<rparr>,
      Arr [], Arr [0], Arr [1], Arr []]"
  let ?ref = "\<lparr> yes_ref = \<lparr> bids_ref = 2, asks_ref = 3 \<rparr>, no_ref = \<lparr> bids_ref = 4, asks_ref = 5 \<rparr> \<rparr>"
  let ?book = "\<lparr> Orderbook.yes = \<lparr> OrderbookSide.bids = [],
              asks = [\<lparr> RawEntry.price = 600000, quantity = 1000000, escrowAppId = 1, owner = ''A'' \<rparr>] \<rparr>,
            no = \<lparr> OrderbookSide.bids = [\<lparr> RawEntry.price = 700000, quantity = 2000000, escrowAppId = 2, owner = ''B'' \<rparr>],
              asks = [] \<rparr> \<rparr>"
  have rb: "read_book ?h ?ref = Some ?book"
    by (simp add: read_book_def read_side_def read_arr_def read_raw_def)
  have len: "length ?h = 6"
    by simp
  from input_not_mutated [OF rb] obtain res h' where
    run: "get_orderbook_heap ?ref ?h = Some (res, h')" and "take (length ?h) h' = ?h"
    by blast
  then have "take 6 h' = ?h"
    unfolding len by simp
  with run have "\<exists>res h'. get_orderbook_heap ?ref ?h = Some (res, h') \<and> take 6 h' = ?h"
    by blast
  then show ?thesis using rb by blast
qed




end
